theory Spec2Isabelle
  imports Main "HOL-Library.Sublist"
begin

section \<open>Word occurrences over several documents (occurrences.py)\<close>

text \<open>
  A Python \<open>str\<close> is modelled as a \<open>string\<close> whose characters are single code points in
  the range U+0000..U+00FF, so \<open>length\<close> counts what Python's \<open>len\<close> counts. Python's
  unbounded integers are \<open>int\<close>. A \<open>dict\<close> is an association list in insertion order
  (Python dictionaries iterate in insertion order, and the sort of the results depends on
  it); a \<open>set\<close> is a HOL set. Exceptions are values of the type \<open>error\<close>.
\<close>

subsection \<open>The tokenizer \<open>wordfinder\<close>\<close>

text \<open>
  \<^verbatim>\<open>wordfinder = re.compile(r'\b([A-Za-z][\w\-\.]{2,60})\b')\<close>

  The character classes of the pattern. \<open>word_char\<close> is \<^verbatim>\<open>\w\<close> of a \<open>str\<close> pattern:
  letters, digits and underscore, and above U+007F the code points that Python counts as
  alphanumeric.
\<close>

definition alpha_char :: "char \<Rightarrow> bool" where
  "alpha_char c =
     (let n = (of_char c :: nat) in (65 \<le> n \<and> n \<le> 90) \<or> (97 \<le> n \<and> n \<le> 122))"

definition word_char :: "char \<Rightarrow> bool" where
  "word_char c =
     (let n = (of_char c :: nat) in
        (48 \<le> n \<and> n \<le> 57) \<or> (65 \<le> n \<and> n \<le> 90) \<or> n = 95 \<or> (97 \<le> n \<and> n \<le> 122)
        \<or> n = 170 \<or> n = 178 \<or> n = 179 \<or> n = 181 \<or> n = 185 \<or> n = 186
        \<or> (188 \<le> n \<and> n \<le> 190) \<or> (192 \<le> n \<and> n \<le> 214) \<or> (216 \<le> n \<and> n \<le> 246)
        \<or> 248 \<le> n)"

definition body_char :: "char \<Rightarrow> bool" where
  "body_char c = (word_char c \<or> c = CHR ''-'' \<or> c = CHR ''.'')"

text \<open>
  \<^verbatim>\<open>\b\<close> at a position: the character before it (\<open>None\<close> at the start of the text) and
  the character after it (none at the end) differ in being word characters.
\<close>

definition word_boundary :: "char option \<Rightarrow> string \<Rightarrow> bool" where
  "word_boundary prev rest =
     ((case prev of None \<Rightarrow> False | Some p \<Rightarrow> word_char p)
        \<noteq> (case rest of [] \<Rightarrow> False | c # _ \<Rightarrow> word_char c))"

text \<open>
  The greedy repetition \<^verbatim>\<open>{2,60}\<close> followed by \<^verbatim>\<open>\b\<close>: with \<open>s\<close> the text from the
  first character of the attempted match, try \<open>j\<close> body characters, the largest number
  first, giving one back at a time, never fewer than two. The result is the length of the
  match.
\<close>

fun backtrack :: "string \<Rightarrow> nat \<Rightarrow> nat option" where
  "backtrack s j =
     (if j < 2 then None
      else if word_boundary (Some (s ! j)) (drop (Suc j) s) then Some (Suc j)
      else backtrack s (j - 1))"

declare backtrack.simps [simp del]

text \<open>One attempt to match the pattern at a position, \<open>prev\<close> being the character before it.\<close>

definition match_at :: "char option \<Rightarrow> string \<Rightarrow> nat option" where
  "match_at prev rest =
     (case rest of
        [] \<Rightarrow> None
      | c # cs \<Rightarrow>
          if word_boundary prev rest \<and> alpha_char c
          then backtrack rest (length (takeWhile body_char (take 60 cs)))
          else None)"

lemma backtrack_pos: "backtrack s j = Some n \<Longrightarrow> 3 \<le> n \<and> n \<le> Suc j"
proof (induction s j rule: backtrack.induct)
  case (1 s j)
  show ?case
  proof (cases "j < 2")
    case True
    with "1.prems" show ?thesis by (simp add: backtrack.simps)
  next
    case False
    show ?thesis
    proof (cases "word_boundary (Some (s ! j)) (drop (Suc j) s)")
      case True
      with False "1.prems" show ?thesis by (simp add: backtrack.simps)
    next
      case nb: False
      with False "1.prems" have "backtrack s (j - 1) = Some n"
        by (simp add: backtrack.simps)
      with "1.IH" False nb have "3 \<le> n \<and> n \<le> Suc (j - 1)" by simp
      with False show ?thesis by arith
    qed
  qed
qed

lemma match_at_pos: "match_at prev rest = Some n \<Longrightarrow> 3 \<le> n"
  by (auto simp: match_at_def split: list.splits if_splits dest: backtrack_pos)

text \<open>
  \<^verbatim>\<open>wordfinder.finditer(textdata)\<close>: the matches from left to right, without overlap; after
  a match the search goes on where the match ended, otherwise one character further. Each
  match is reduced to \<^verbatim>\<open>word.group(0)\<close>, the only thing the program reads of it.
\<close>

function finditer :: "char option \<Rightarrow> string \<Rightarrow> string list" where
  "finditer prev [] = []"
| "finditer prev (c # cs) =
     (case match_at prev (c # cs) of
        None \<Rightarrow> finditer (Some c) cs
      | Some n \<Rightarrow>
          take n (c # cs) # finditer (Some ((c # cs) ! (n - 1))) (drop n (c # cs)))"
  by pat_completeness auto
termination
  by (relation "measure (\<lambda>(prev, s). length s)") (auto dest: match_at_pos)

definition wordfinder :: "string \<Rightarrow> string list" where
  "wordfinder textdata = finditer None textdata"

subsection \<open>Dictionaries in insertion order\<close>

type_synonym worddict = "(string \<times> int) list"

text \<open>\<^verbatim>\<open>d[k]\<close> under \<^verbatim>\<open>k in d\<close>: \<open>None\<close> when the key is absent.\<close>

fun dict_get :: "worddict \<Rightarrow> string \<Rightarrow> int option" where
  "dict_get [] k = None"
| "dict_get ((k', v) # d) k = (if k' = k then Some v else dict_get d k)"

text \<open>\<^verbatim>\<open>d[k] = v\<close>: a key already present keeps its place, a new key goes to the end.\<close>

fun dict_set :: "worddict \<Rightarrow> string \<Rightarrow> int \<Rightarrow> worddict" where
  "dict_set [] k v = [(k, v)]"
| "dict_set ((k', v') # d) k v =
     (if k' = k then (k, v) # d else (k', v') # dict_set d k v)"

text \<open>\<^verbatim>\<open>dict(items)\<close> and the dictionary comprehension: the items are stored one by one.\<close>

definition dict_of :: "(string \<times> int) list \<Rightarrow> worddict" where
  "dict_of items = fold (\<lambda>(key, val) d. dict_set d key val) items []"

text \<open>\<^verbatim>\<open>sorted(results.items(), key=lambda x:x[1])\<close>: Python's sort is stable.\<close>

definition sorted_by_count :: "worddict \<Rightarrow> (string \<times> int) list" where
  "sorted_by_count results = sort_key snd results"

subsection \<open>The class \<open>DocumentAnalyser\<close>\<close>

datatype error = NameError string | UnboundLocalError string | ReadError string

record analyser =
  mincount :: int
  maxcount :: int
  documents :: "worddict list"
  ignorewords :: "string set"

text \<open>An argument that is \<^verbatim>\<open>None\<close>, a single text or a list of texts.\<close>

datatype textarg = NoneArg | Str string | StrList "string list"

definition add_ignore :: "analyser \<Rightarrow> string \<Rightarrow> analyser" where
  "add_ignore self textdata =
     fold (\<lambda>word s. s\<lparr>ignorewords := insert word (ignorewords s)\<rparr>) (wordfinder textdata) self"

definition count_word :: "string set \<Rightarrow> string \<Rightarrow> worddict \<Rightarrow> worddict" where
  "count_word ignore word worddict =
     (if word \<in> ignore then worddict
      else case dict_get worddict word of
             Some c \<Rightarrow> dict_set worddict word (c + 1)
           | None \<Rightarrow> dict_set worddict word 1)"

definition count_occurrences :: "analyser \<Rightarrow> string \<Rightarrow> analyser" where
  "count_occurrences self textdata =
     (let worddict = fold (count_word (ignorewords self)) (wordfinder textdata) []
      in self\<lparr>documents := documents self @ [worddict]\<rparr>)"

definition process_check :: "analyser \<Rightarrow> textarg \<Rightarrow> analyser" where
  "process_check self checkdocuments =
     (case checkdocuments of
        NoneArg \<Rightarrow> self
      | Str text \<Rightarrow> count_occurrences self text
      | StrList texts \<Rightarrow> fold (\<lambda>document s. count_occurrences s document) texts self)"

text \<open>
  In \<^verbatim>\<open>__process_ignore\<close> the branch for a list iterates over \<^verbatim>\<open>checkdocuments\<close>, a name
  that is neither a local of the method nor a global of the module: evaluating it raises
  \<^verbatim>\<open>NameError\<close> before the loop body runs, whatever the list holds.
\<close>

definition process_ignore :: "analyser \<Rightarrow> textarg \<Rightarrow> error + analyser" where
  "process_ignore self ignoredocuments =
     (case ignoredocuments of
        NoneArg \<Rightarrow> Inr self
      | Str text \<Rightarrow> Inr (add_ignore self text)
      | StrList texts \<Rightarrow> Inl (NameError ''checkdocuments''))"

text \<open>
  \<^verbatim>\<open>__init__(self, checkdocuments, **kwargs)\<close>, the keyword arguments
  \<^verbatim>\<open>ignoredocuments\<close>, \<^verbatim>\<open>mincount\<close> and \<^verbatim>\<open>maxcount\<close> being optional.
\<close>

definition init :: "textarg \<Rightarrow> textarg \<Rightarrow> int option \<Rightarrow> int option \<Rightarrow> error + analyser" where
  "init checkdocuments ignoredocuments mincount_kw maxcount_kw =
     (let self = \<lparr>mincount = (case mincount_kw of None \<Rightarrow> 1 | Some m \<Rightarrow> m),
                  maxcount = (case maxcount_kw of None \<Rightarrow> 256 | Some m \<Rightarrow> m),
                  documents = [], ignorewords = {}\<rparr>
      in case process_ignore self ignoredocuments of
           Inl e \<Rightarrow> Inl e
         | Inr self' \<Rightarrow> Inr (process_check self' checkdocuments))"

subsection \<open>\<open>find_duplicates\<close>\<close>

text \<open>
  The inner loop \<^verbatim>\<open>for i in range (1, documentslen)\<close>, started with \<^verbatim>\<open>foundin = 1\<close> and
  \<^verbatim>\<open>wordcount = 0\<close>.
\<close>

definition scan_others :: "worddict list \<Rightarrow> string \<Rightarrow> nat \<times> int" where
  "scan_others docs word =
     fold (\<lambda>i (foundin, wordcount).
             case dict_get (docs ! i) word of
               Some c \<Rightarrow> (foundin + 1, wordcount + c)
             | None \<Rightarrow> (foundin, wordcount))
          [1..<length docs] (1, 0)"

text \<open>The body of the outer loop over the items of the first dictionary.\<close>

definition review_word :: "analyser \<Rightarrow> string \<times> int \<Rightarrow> worddict \<Rightarrow> worddict" where
  "review_word self item results =
     (case item of (word, firstcount) \<Rightarrow>
        (case scan_others (documents self) word of (foundin, wordcount) \<Rightarrow>
           if foundin < length (documents self) then results
           else let wordcount = wordcount + firstcount
                in if wordcount \<ge> mincount self \<and> wordcount \<le> maxcount self
                   then dict_set results word wordcount
                   else results))"

definition find_duplicates :: "analyser \<Rightarrow> worddict option" where
  "find_duplicates self =
     (let documentslen = length (documents self) in
      if documentslen = 0 then None
      else if documentslen = 1 then
        (let results = documents self ! 0;
             results = dict_of (sorted_by_count results);
             results = dict_of (filter (\<lambda>x. snd x \<ge> mincount self \<and> snd x \<le> maxcount self)
                                  results)
         in Some results)
      else Some (dict_of (sorted_by_count
                   (fold (review_word self) (documents self ! 0) []))))"

text \<open>\<^verbatim>\<open>DocumentAnalyser(checkdocuments, ...).find_duplicates()\<close>\<close>

definition analyse ::
  "textarg \<Rightarrow> textarg \<Rightarrow> int option \<Rightarrow> int option \<Rightarrow> error + worddict option" where
  "analyse checkdocuments ignoredocuments mincount_kw maxcount_kw =
     (case init checkdocuments ignoredocuments mincount_kw maxcount_kw of
        Inl e \<Rightarrow> Inl e
      | Inr self \<Rightarrow> Inr (find_duplicates self))"

subsection \<open>\<open>display_results\<close>\<close>

text \<open>The decimal digits of a natural number, and \<^verbatim>\<open>str\<close> of an integer.\<close>

fun digits :: "nat \<Rightarrow> string" where
  "digits n =
     (if n < 10 then [char_of (48 + n)]
      else digits (n div 10) @ [char_of (48 + n mod 10)])"

declare digits.simps [simp del]

definition str_int :: "int \<Rightarrow> string" where
  "str_int i = (if i < 0 then CHR ''-'' # digits (nat (- i)) else digits (nat i))"

text \<open>
  The format specification \<^verbatim>\<open><32\<close>: the text is left-aligned in a field of at least the
  given width, filled with spaces on the right.
\<close>

definition ljust :: "nat \<Rightarrow> string \<Rightarrow> string" where
  "ljust width s = s @ replicate (width - length s) CHR '' ''"

text \<open>\<^verbatim>\<open>f'{key:<32} {value}'\<close>\<close>

definition format_line :: "string \<Rightarrow> int \<Rightarrow> string" where
  "format_line key val = ljust 32 key @ '' '' @ str_int val"

text \<open>The result is the list of the lines printed.\<close>

definition display_results :: "analyser \<Rightarrow> string list" where
  "display_results self =
     (case find_duplicates self of
        None \<Rightarrow> [''No results found'']
      | Some worddict \<Rightarrow> map (\<lambda>(key, val). format_line key val) worddict)"

subsection \<open>\<open>load_file\<close>\<close>

text \<open>
  What the program sees of the operating system: whether a path is a regular file, and
  what \<^verbatim>\<open>open(filename, 'r')\<close> does, which either raises \<^verbatim>\<open>OSError\<close> (\<open>Inl\<close> its text; in
  Python 3 \<^verbatim>\<open>IOError\<close> is the same class) or gives a file, of which the model keeps what
  \<^verbatim>\<open>read()\<close> does: it returns the contents or raises.
\<close>

record os =
  isfile :: "string \<Rightarrow> bool"
  fopen :: "string \<Rightarrow> string + (error + string)"

text \<open>
  \<^verbatim>\<open>f.close()\<close> in the \<^verbatim>\<open>finally\<close> clause, \<open>f\<close> being the local variable, \<open>None\<close> while
  nothing has been assigned to it.
\<close>

definition close_file :: "(error + string) option \<Rightarrow> error + unit" where
  "close_file f = (case f of None \<Rightarrow> Inl (UnboundLocalError ''f'') | Some _ \<Rightarrow> Inr ())"

text \<open>
  The result is the list of the lines printed and the outcome of the call. An exception
  raised by the \<^verbatim>\<open>finally\<close> clause replaces the \<^verbatim>\<open>return\<close> that was under way.
\<close>

definition load_file :: "os \<Rightarrow> string \<Rightarrow> string list \<times> (error + string)" where
  "load_file sys filename =
     (if \<not> isfile sys filename
      then ([''Error: Unable to load '' @ filename @ '', file is missing''], Inr '''')
      else
        (case (case fopen sys filename of
                 Inl detail \<Rightarrow>
                   (None, [''Error: Unable to read to '' @ filename, detail], Inr '''')
               | Inr file \<Rightarrow> (Some file, [], file))
         of (f, printed, outcome) \<Rightarrow>
           (case close_file f of
              Inl e \<Rightarrow> (printed, Inl e)
            | Inr _ \<Rightarrow> (printed, outcome))))"

text \<open>
  The loop of \<^verbatim>\<open>main\<close> that loads the files to check: an exception leaves the loop and
  the program.
\<close>

fun load_documents :: "os \<Rightarrow> string list \<Rightarrow> string list \<times> (error + string list)" where
  "load_documents sys [] = ([], Inr [])"
| "load_documents sys (filename # files) =
     (case load_file sys filename of
        (printed, Inl e) \<Rightarrow> (printed, Inl e)
      | (printed, Inr filelines) \<Rightarrow>
          (case load_documents sys files of
             (printed', Inl e) \<Rightarrow> (printed @ printed', Inl e)
           | (printed', Inr checkdocuments) \<Rightarrow>
               (printed @ printed', Inr (filelines # checkdocuments))))"

subsection \<open>Notions of the specification\<close>

text \<open>The keys of a dictionary, in iteration order.\<close>

definition keys :: "worddict \<Rightarrow> string list" where
  "keys d = map fst d"

text \<open>The sum of a token's counts across the documents, a document without it adding nothing.\<close>

definition total_count :: "worddict list \<Rightarrow> string \<Rightarrow> int" where
  "total_count docs word =
     sum_list (map (\<lambda>d. case dict_get d word of Some c \<Rightarrow> c | None \<Rightarrow> 0) docs)"

text \<open>A text padded with spaces or cut to a column of exactly the given width.\<close>

definition fixed_column :: "nat \<Rightarrow> string \<Rightarrow> string" where
  "fixed_column width s = take width (s @ replicate width CHR '' '')"

text \<open>The texts an argument holds.\<close>

definition texts_of :: "textarg \<Rightarrow> string list" where
  "texts_of arg = (case arg of NoneArg \<Rightarrow> [] | Str text \<Rightarrow> [text] | StrList texts \<Rightarrow> texts)"

section \<open>Properties\<close>

subsection \<open>Dictionaries and the constructor\<close>

lemma dict_get_map_of: "dict_get d k = map_of d k"
  by (induction d) auto

lemma dict_get_None_iff: "dict_get d k = None \<longleftrightarrow> k \<notin> set (keys d)"
  by (simp add: dict_get_map_of keys_def map_of_eq_None_iff)

lemma dict_get_Some_iff: "distinct (keys d) \<Longrightarrow> dict_get d k = Some v \<longleftrightarrow> (k, v) \<in> set d"
  by (simp add: dict_get_map_of keys_def)

lemma dict_set_fresh: "k \<notin> set (keys d) \<Longrightarrow> dict_set d k v = d @ [(k, v)]"
  by (induction d) (auto simp: keys_def)

lemma keys_dict_set:
  "keys (dict_set d k v) = (if k \<in> set (keys d) then keys d else keys d @ [k])"
proof (induction d)
  case Nil
  show ?case by (simp add: keys_def)
next
  case (Cons p d)
  obtain k' v' where p: "p = (k', v')" by (cases p)
  show ?case
  proof (cases "k' = k")
    case True
    with p show ?thesis by (simp add: keys_def)
  next
    case False
    with p Cons.IH show ?thesis by (simp add: keys_def)
  qed
qed

lemma fold_dict_set:
  "distinct (keys (acc @ items)) \<Longrightarrow>
     fold (\<lambda>(key, val) d. dict_set d key val) items acc = acc @ items"
proof (induction items arbitrary: acc)
  case Nil
  show ?case by simp
next
  case (Cons item items)
  obtain k v where item: "item = (k, v)" by (cases item)
  from Cons.prems item have fresh: "k \<notin> set (keys acc)"
    by (auto simp: keys_def)
  from Cons.prems item have "distinct (keys ((acc @ [(k, v)]) @ items))"
    by (simp add: keys_def)
  from Cons.IH [OF this] fresh item show ?case
    by (simp add: dict_set_fresh)
qed

lemma dict_of_distinct: "distinct (keys items) \<Longrightarrow> dict_of items = items"
  using fold_dict_set [of "[]" items] by (simp add: dict_of_def)

lemma keys_sort_key: "distinct (keys (sort_key f d)) = distinct (keys d)"
  by (simp add: keys_def distinct_map)

lemma keys_filter: "distinct (keys d) \<Longrightarrow> distinct (keys (filter P d))"
  by (simp add: keys_def distinct_map_filter)

lemma set_keys_count_word:
  "set (keys (count_word ig w d)) = (if w \<in> ig then set (keys d) else insert w (set (keys d)))"
  by (auto simp: count_word_def keys_dict_set dict_get_None_iff split: option.splits)

lemma distinct_count_word: "distinct (keys d) \<Longrightarrow> distinct (keys (count_word ig w d))"
  by (auto simp: count_word_def keys_dict_set dict_get_None_iff split: option.splits)

lemma set_keys_fold_count_word:
  "set (keys (fold (count_word ig) ws d)) = set (keys d) \<union> (set ws - ig)"
  by (induction ws arbitrary: d) (auto simp: set_keys_count_word)

lemma distinct_fold_count_word:
  "distinct (keys d) \<Longrightarrow> distinct (keys (fold (count_word ig) ws d))"
  by (induction ws arbitrary: d) (auto simp: distinct_count_word)

lemma fold_ignore_fields:
  "ignorewords (fold (\<lambda>word s. s\<lparr>ignorewords := insert word (ignorewords s)\<rparr>) ws self)
     = ignorewords self \<union> set ws
   \<and> documents (fold (\<lambda>word s. s\<lparr>ignorewords := insert word (ignorewords s)\<rparr>) ws self)
     = documents self
   \<and> mincount (fold (\<lambda>word s. s\<lparr>ignorewords := insert word (ignorewords s)\<rparr>) ws self)
     = mincount self
   \<and> maxcount (fold (\<lambda>word s. s\<lparr>ignorewords := insert word (ignorewords s)\<rparr>) ws self)
     = maxcount self"
  by (induction ws arbitrary: self) auto

lemma add_ignore_fields:
  "ignorewords (add_ignore self text) = ignorewords self \<union> set (wordfinder text)"
  "documents (add_ignore self text) = documents self"
  "mincount (add_ignore self text) = mincount self"
  "maxcount (add_ignore self text) = maxcount self"
  using fold_ignore_fields [of "wordfinder text" self] by (simp_all add: add_ignore_def)

lemma count_occurrences_fields:
  "documents (count_occurrences self text)
     = documents self @ [fold (count_word (ignorewords self)) (wordfinder text) []]"
  "ignorewords (count_occurrences self text) = ignorewords self"
  "mincount (count_occurrences self text) = mincount self"
  "maxcount (count_occurrences self text) = maxcount self"
  by (simp_all add: count_occurrences_def Let_def)

lemma fold_count_occurrences:
  "documents (fold (\<lambda>document s. count_occurrences s document) texts self)
     = documents self @ map (\<lambda>text. fold (count_word (ignorewords self)) (wordfinder text) []) texts
   \<and> ignorewords (fold (\<lambda>document s. count_occurrences s document) texts self) = ignorewords self
   \<and> mincount (fold (\<lambda>document s. count_occurrences s document) texts self) = mincount self
   \<and> maxcount (fold (\<lambda>document s. count_occurrences s document) texts self) = maxcount self"
  by (induction texts arbitrary: self) (simp_all add: count_occurrences_fields)

lemma process_check_fields:
  "documents (process_check self cd)
     = documents self
       @ map (\<lambda>text. fold (count_word (ignorewords self)) (wordfinder text) []) (texts_of cd)"
  "ignorewords (process_check self cd) = ignorewords self"
  "mincount (process_check self cd) = mincount self"
  "maxcount (process_check self cd) = maxcount self"
  using fold_count_occurrences [of _ self]
  by (simp_all add: process_check_def texts_of_def count_occurrences_fields split: textarg.splits)

lemma init_fields:
  assumes "init cd ig mn mx = Inr a"
  shows "ignorewords a = (case ig of Str text \<Rightarrow> set (wordfinder text) | _ \<Rightarrow> {})"
    and "documents a
           = map (\<lambda>text. fold (count_word (ignorewords a)) (wordfinder text) []) (texts_of cd)"
    and "mincount a = (case mn of None \<Rightarrow> 1 | Some m \<Rightarrow> m)"
    and "maxcount a = (case mx of None \<Rightarrow> 256 | Some m \<Rightarrow> m)"
  using assms
  by (auto simp: init_def Let_def process_ignore_def process_check_fields add_ignore_fields
           split: textarg.splits)

lemma init_succeeds:
  "(\<exists>a. init cd ig mn mx = Inr a) \<longleftrightarrow> (\<forall>texts. ig \<noteq> StrList texts)"
  by (cases ig) (simp_all add: init_def Let_def process_ignore_def)

lemma init_distinct:
  assumes "init cd ig mn mx = Inr a" and "d \<in> set (documents a)"
  shows "distinct (keys d)"
proof -
  from assms obtain t where "d = fold (count_word (ignorewords a)) (wordfinder t) []"
    by (auto simp: init_fields(2) [OF assms(1)])
  moreover have "distinct (keys [])" by (simp add: keys_def)
  ultimately show ?thesis by (simp add: distinct_fold_count_word)
qed


lemma nth_upt_tl: "map ((!) xs) [1..<length xs] = tl xs"
proof (cases xs)
  case Nil
  then show ?thesis by simp
next
  case (Cons x ys)
  have "map ((!) (x # ys)) [Suc 0..<Suc (length ys)]
          = map ((!) (x # ys)) (map Suc [0..<length ys])"
    by (simp only: map_Suc_upt)
  also have "\<dots> = map ((!) ys) [0..<length ys]"
    by (simp only: map_map comp_def nth_Cons_Suc)
  also have "\<dots> = ys" by (rule map_nth)
  finally show ?thesis using Cons by simp
qed

lemma fold_scan:
  "fold (\<lambda>d (foundin, wordcount).
           case dict_get d word of
             Some c \<Rightarrow> (foundin + 1, wordcount + c)
           | None \<Rightarrow> (foundin, wordcount)) ds (f, n)
   = (f + length (filter (\<lambda>d. dict_get d word \<noteq> None) ds),
      n + sum_list (map (\<lambda>d. case dict_get d word of Some c \<Rightarrow> c | None \<Rightarrow> 0) ds))"
  by (induction ds arbitrary: f n) (auto split: option.splits)

lemma scan_others_eq:
  "scan_others docs word
   = (1 + length (filter (\<lambda>d. dict_get d word \<noteq> None) (tl docs)), total_count (tl docs) word)"
proof -
  let ?g = "\<lambda>d (foundin :: nat, wordcount :: int).
              case dict_get d word of
                Some c \<Rightarrow> (foundin + 1, wordcount + c)
              | None \<Rightarrow> (foundin, wordcount)"
  have "scan_others docs word = fold (?g \<circ> (!) docs) [1..<length docs] (1, 0)"
    by (simp add: scan_others_def comp_def)
  also have "\<dots> = fold ?g (map ((!) docs) [1..<length docs]) (1, 0)"
    by (simp only: fold_map)
  also have "\<dots> = fold ?g (tl docs) (1, 0)"
    by (simp only: nth_upt_tl)
  finally show ?thesis by (simp add: fold_scan total_count_def)
qed

lemma length_filter_all: "length (filter P xs) = length xs \<longleftrightarrow> (\<forall>x \<in> set xs. P x)"
proof (induction xs)
  case Nil
  show ?case by simp
next
  case (Cons x xs)
  have le: "length (filter P xs) \<le> length xs" by (rule length_filter_le)
  show ?case
  proof (cases "P x")
    case True
    with Cons show ?thesis by simp
  next
    case False
    from le have "length (filter P xs) \<noteq> Suc (length xs)" by linarith
    with False show ?thesis by auto
  qed
qed

lemma found_in_all:
  "docs \<noteq> [] \<Longrightarrow>
     \<not> fst (scan_others docs word) < length docs
       \<longleftrightarrow> (\<forall>d \<in> set (tl docs). dict_get d word \<noteq> None)"
proof -
  assume "docs \<noteq> []"
  then obtain d0 ds where docs: "docs = d0 # ds" by (cases docs) auto
  have le: "length (filter (\<lambda>d. dict_get d word \<noteq> None) ds) \<le> length ds"
    by (rule length_filter_le)
  have "fst (scan_others docs word) = Suc (length (filter (\<lambda>d. dict_get d word \<noteq> None) ds))"
    by (simp add: scan_others_eq docs)
  moreover from le
  have "\<not> Suc (length (filter (\<lambda>d. dict_get d word \<noteq> None) ds)) < Suc (length ds)
      \<longleftrightarrow> length (filter (\<lambda>d. dict_get d word \<noteq> None) ds) = length ds"
    by linarith
  ultimately have "\<not> fst (scan_others docs word) < length docs
      \<longleftrightarrow> length (filter (\<lambda>d. dict_get d word \<noteq> None) ds) = length ds"
    by (simp only: docs length_Cons)
  also have "\<dots> \<longleftrightarrow> (\<forall>d \<in> set ds. dict_get d word \<noteq> None)"
    by (rule length_filter_all)
  finally show ?thesis by (simp add: docs)
qed

subsection \<open>The result of \<open>find_duplicates\<close>\<close>

lemma fold_review_word:
  "distinct (keys (acc @ items)) \<Longrightarrow>
     fold (review_word self) items acc
     = acc @ map (\<lambda>(word, firstcount).
                    (word, snd (scan_others (documents self) word) + firstcount))
               (filter (\<lambda>(word, firstcount).
                          \<not> fst (scan_others (documents self) word) < length (documents self)
                          \<and> mincount self \<le> snd (scan_others (documents self) word) + firstcount
                          \<and> snd (scan_others (documents self) word) + firstcount \<le> maxcount self)
                       items)"
proof (induction items arbitrary: acc)
  case Nil
  show ?case by simp
next
  case (Cons item items)
  obtain w c where item: "item = (w, c)" by (cases item)
  from Cons.prems item have fresh: "w \<notin> set (keys acc)"
    by (auto simp: keys_def)
  let ?v = "snd (scan_others (documents self) w) + c"
  show ?case
  proof (cases "\<not> fst (scan_others (documents self) w) < length (documents self)
                 \<and> mincount self \<le> ?v \<and> ?v \<le> maxcount self")
    case True
    then have step: "review_word self item acc = acc @ [(w, ?v)]"
      by (simp add: review_word_def item Let_def case_prod_beta dict_set_fresh [OF fresh])
    from Cons.prems item have "distinct (keys ((acc @ [(w, ?v)]) @ items))"
      by (simp add: keys_def)
    from Cons.IH [OF this] step True item show ?thesis by simp
  next
    case False
    then have step: "review_word self item acc = acc"
      by (auto simp: review_word_def item Let_def case_prod_beta)
    from Cons.prems have "distinct (keys (acc @ items))"
      by (simp add: keys_def)
    from Cons.IH [OF this] step False item show ?thesis by auto
  qed
qed

text \<open>The result for two or more documents, in the words of the specification.\<close>

lemma find_duplicates_many:
  assumes len: "2 \<le> length (documents self)"
    and dist: "distinct (keys (documents self ! 0))"
  shows "find_duplicates self
         = Some (sort_key snd
             (map (\<lambda>(word, firstcount). (word, total_count (documents self) word))
                (filter (\<lambda>(word, firstcount).
                           (\<forall>d \<in> set (documents self). dict_get d word \<noteq> None)
                           \<and> mincount self \<le> total_count (documents self) word
                           \<and> total_count (documents self) word \<le> maxcount self)
                        (documents self ! 0))))"
proof -
  from len obtain d0 ds where docs: "documents self = d0 # ds"
    by (cases "documents self") auto
  have tot: "snd (scan_others (documents self) w) + c = total_count (documents self) w"
    if "(w, c) \<in> set d0" for w c
  proof -
    from dist docs that have "dict_get d0 w = Some c"
      by (simp add: dict_get_Some_iff)
    then show ?thesis
      by (simp add: scan_others_eq docs total_count_def)
  qed
  have inall: "\<not> fst (scan_others (documents self) w) < length (documents self)
               \<longleftrightarrow> (\<forall>d \<in> set (documents self). dict_get d w \<noteq> None)"
    if "(w, c) \<in> set d0" for w c
  proof -
    from dist docs that have "dict_get d0 w = Some c"
      by (simp add: dict_get_Some_iff)
    moreover have "documents self \<noteq> []" by (simp add: docs)
    from found_in_all [OF this, of w]
    have "\<not> fst (scan_others (documents self) w) < length (documents self)
            \<longleftrightarrow> (\<forall>d \<in> set ds. dict_get d w \<noteq> None)"
      by (simp add: docs)
    ultimately show ?thesis
      by (simp add: docs)
  qed
  let ?Q = "\<lambda>(word, firstcount).
              \<not> fst (scan_others (documents self) word) < length (documents self)
              \<and> mincount self \<le> snd (scan_others (documents self) word) + firstcount
              \<and> snd (scan_others (documents self) word) + firstcount \<le> maxcount self"
  let ?Q' = "\<lambda>(word, firstcount :: int).
              (\<forall>d \<in> set (documents self). dict_get d word \<noteq> None)
              \<and> mincount self \<le> total_count (documents self) word
              \<and> total_count (documents self) word \<le> maxcount self"
  let ?g = "\<lambda>(word, firstcount). (word, snd (scan_others (documents self) word) + firstcount)"
  let ?g' = "\<lambda>(word, firstcount :: int). (word, total_count (documents self) word)"
  have fq: "filter ?Q d0 = filter ?Q' d0"
  proof (rule filter_cong [OF refl])
    fix x assume x: "x \<in> set d0"
    obtain w c where "x = (w, c)" by (cases x)
    with x tot [of w c] inall [of w c] show "?Q x = ?Q' x" by simp
  qed
  have mg: "map ?g (filter ?Q' d0) = map ?g' (filter ?Q' d0)"
  proof (rule map_cong [OF refl])
    fix x assume "x \<in> set (filter ?Q' d0)"
    then have x: "x \<in> set d0" by simp
    obtain w c where "x = (w, c)" by (cases x)
    with x tot [of w c] show "?g x = ?g' x" by simp
  qed
  from dist docs have "distinct (keys ([] @ d0))" by simp
  from fold_review_word [OF this, of self]
  have res: "fold (review_word self) d0 [] = map ?g' (filter ?Q' d0)"
    by (simp only: fq mg append_Nil)
  have "keys (map ?g' (filter ?Q' d0)) = keys (filter ?Q' d0)"
    by (simp add: keys_def comp_def case_prod_unfold)
  with dist docs have "distinct (keys (sort_key snd (map ?g' (filter ?Q' d0))))"
    by (simp add: keys_sort_key keys_filter)
  then have srt: "dict_of (sorted_by_count (map ?g' (filter ?Q' d0)))
             = sort_key snd (map ?g' (filter ?Q' d0))"
    by (simp add: sorted_by_count_def dict_of_distinct)
  from len have n: "length (documents self) \<noteq> 0" "length (documents self) \<noteq> 1"
    by auto
  have d0: "documents self ! 0 = d0" by (simp add: docs)
  from n srt show ?thesis
    by (simp add: find_duplicates_def Let_def d0 res)
qed

lemma find_duplicates_single:
  assumes docs: "documents self = [d]" and dist: "distinct (keys d)"
  shows "find_duplicates self
         = Some (filter (\<lambda>x. mincount self \<le> snd x \<and> snd x \<le> maxcount self) (sort_key snd d))"
proof -
  from dist have 1: "dict_of (sorted_by_count d) = sort_key snd d"
    by (simp add: sorted_by_count_def dict_of_distinct keys_sort_key)
  from dist have "distinct (keys (filter (\<lambda>x. mincount self \<le> snd x \<and> snd x \<le> maxcount self)
                                     (sort_key snd d)))"
    by (simp add: keys_filter keys_sort_key)
  then have 2: "dict_of (filter (\<lambda>x. mincount self \<le> snd x \<and> snd x \<le> maxcount self)
                          (sort_key snd d))
                = filter (\<lambda>x. mincount self \<le> snd x \<and> snd x \<le> maxcount self) (sort_key snd d)"
    by (rule dict_of_distinct)
  show ?thesis
    by (simp add: find_duplicates_def Let_def docs 1 2)
qed

lemma init_length:
  "init cd ig mn mx = Inr a \<Longrightarrow> length (documents a) = length (texts_of cd)"
  by (simp add: init_fields(2))

lemma fold_review_word_empty:
  "maxcount self < mincount self \<Longrightarrow> fold (review_word self) items acc = acc"
  by (induction items arbitrary: acc) (auto simp: review_word_def Let_def case_prod_beta)

lemma keys_mem: "w \<in> set (keys d) \<longleftrightarrow> (\<exists>c. (w, c) \<in> set d)"
  by (force simp: keys_def)

lemma length_ljust: "length (ljust width s) = max width (length s)"
  by (simp add: ljust_def)

lemma ljust_fixed_column: "length s \<le> width \<Longrightarrow> ljust width s = fixed_column width s"
  by (simp add: ljust_def fixed_column_def)

section \<open>The claims\<close>

text \<open>
  C1. For an analyser built from two or more documents, a token is in the mapping that
  \<open>find_duplicates\<close> returns exactly when it is a key of the first document's mapping, a
  key of every document's mapping, and the sum of its counts over all the documents lies
  between \<open>mincount\<close> and \<open>maxcount\<close>, both included; its value in the result is that
  sum. A token that is not a key of the first document's mapping is never in the result.
\<close>

theorem find_duplicates_intersection:
  assumes built: "init cd ig mn mx = Inr a" and many: "2 \<le> length (texts_of cd)"
  shows "length (documents a) = length (texts_of cd)
         \<and> (\<exists>r. find_duplicates a = Some r \<and> distinct (keys r)
               \<and> (\<forall>w c. dict_get r w = Some c \<longleftrightarrow>
                      w \<in> set (keys (documents a ! 0))
                      \<and> (\<forall>d \<in> set (documents a). w \<in> set (keys d))
                      \<and> c = total_count (documents a) w
                      \<and> mincount a \<le> c \<and> c \<le> maxcount a)
               \<and> (\<forall>w. w \<notin> set (keys (documents a ! 0)) \<longrightarrow> dict_get r w = None))"
proof -
  have len: "length (documents a) = length (texts_of cd)"
    by (rule init_length [OF built])
  with many have two: "2 \<le> length (documents a)" by simp
  then have "0 < length (documents a)" by linarith
  then have "documents a ! 0 \<in> set (documents a)" by (rule nth_mem)
  then have dist: "distinct (keys (documents a ! 0))"
    by (rule init_distinct [OF built])
  let ?d0 = "documents a ! 0"
  let ?Q = "\<lambda>(word, firstcount :: int).
              (\<forall>d \<in> set (documents a). dict_get d word \<noteq> None)
              \<and> mincount a \<le> total_count (documents a) word
              \<and> total_count (documents a) word \<le> maxcount a"
  let ?g = "\<lambda>(word, firstcount :: int). (word, total_count (documents a) word)"
  let ?r = "sort_key snd (map ?g (filter ?Q ?d0))"
  have res: "find_duplicates a = Some ?r"
    by (rule find_duplicates_many [OF two dist])
  have "keys (map ?g (filter ?Q ?d0)) = keys (filter ?Q ?d0)"
    by (simp add: keys_def comp_def case_prod_unfold)
  with dist have dr: "distinct (keys ?r)"
    by (simp add: keys_sort_key keys_filter)
  have mem: "dict_get ?r w = Some c \<longleftrightarrow>
               w \<in> set (keys ?d0)
               \<and> (\<forall>d \<in> set (documents a). w \<in> set (keys d))
               \<and> c = total_count (documents a) w
               \<and> mincount a \<le> c \<and> c \<le> maxcount a" for w c
  proof -
    have "dict_get ?r w = Some c \<longleftrightarrow> (w, c) \<in> set (map ?g (filter ?Q ?d0))"
      using dict_get_Some_iff [OF dr, of w c] by simp
    also have "\<dots> \<longleftrightarrow> (\<exists>c0. (w, c0) \<in> set ?d0 \<and> ?Q (w, c0) \<and> c = total_count (documents a) w)"
      by (auto simp: image_iff)
    also have "\<dots> \<longleftrightarrow> w \<in> set (keys ?d0)
               \<and> (\<forall>d \<in> set (documents a). w \<in> set (keys d))
               \<and> c = total_count (documents a) w
               \<and> mincount a \<le> c \<and> c \<le> maxcount a"
      by (simp only: dict_get_None_iff keys_mem [of w ?d0] prod.case not_not) blast
    finally show ?thesis .
  qed
  have "dict_get ?r w = None" if "w \<notin> set (keys ?d0)" for w
  proof (cases "dict_get ?r w")
    case None
    then show ?thesis .
  next
    case (Some c)
    with mem [of w c] that show ?thesis by simp
  qed
  with len res dr mem show ?thesis by blast
qed

text \<open>
  An instance: three documents, \<open>cat\<close> in all of them with 1 + 2 + 1 occurrences, \<open>emu\<close>
  in the second and the third only.
\<close>

theorem find_duplicates_intersection_witness:
  "init (StrList [''cat dog dog'', ''dog cat cat emu'', ''emu cat dog'']) NoneArg None None
     = Inr \<lparr>mincount = 1, maxcount = 256,
            documents = [[(''cat'', 1), (''dog'', 2)],
                         [(''dog'', 1), (''cat'', 2), (''emu'', 1)],
                         [(''emu'', 1), (''cat'', 1), (''dog'', 1)]],
            ignorewords = {}\<rparr>
   \<and> 2 \<le> length (texts_of (StrList [''cat dog dog'', ''dog cat cat emu'', ''emu cat dog'']))
   \<and> (\<exists>r. find_duplicates \<lparr>mincount = 1, maxcount = 256,
                 documents = [[(''cat'', 1), (''dog'', 2)],
                              [(''dog'', 1), (''cat'', 2), (''emu'', 1)],
                              [(''emu'', 1), (''cat'', 1), (''dog'', 1)]],
                 ignorewords = {}\<rparr> = Some r
          \<and> dict_get r ''cat'' = Some 4 \<and> dict_get r ''emu'' = None)"
proof -
  define C where "C = StrList [''cat dog dog'', ''dog cat cat emu'', ''emu cat dog'']"
  define A where "A = \<lparr>mincount = 1, maxcount = 256,
            documents = [[(''cat'', 1 :: int), (''dog'', 2)],
                         [(''dog'', 1), (''cat'', 2), (''emu'', 1)],
                         [(''emu'', 1), (''cat'', 1), (''dog'', 1)]],
            ignorewords = {} :: string set\<rparr>"
  have h1: "init C NoneArg None None = Inr A"
    unfolding C_def A_def by code_simp
  have h2: "2 \<le> length (texts_of C)"
    by (simp add: C_def texts_of_def)
  from find_duplicates_intersection [OF h1 h2]
  obtain r where r: "find_duplicates A = Some r"
    and iff: "\<forall>w c. dict_get r w = Some c \<longleftrightarrow>
                w \<in> set (keys (documents A ! 0))
                \<and> (\<forall>d \<in> set (documents A). w \<in> set (keys d))
                \<and> c = total_count (documents A) w
                \<and> mincount A \<le> c \<and> c \<le> maxcount A"
    and absent: "\<forall>w. w \<notin> set (keys (documents A ! 0)) \<longrightarrow> dict_get r w = None"
    by blast
  from iff have "dict_get r ''cat'' = Some 4"
    by (simp add: A_def keys_def total_count_def)
  moreover from absent have "dict_get r ''emu'' = None"
    by (simp add: A_def keys_def)
  ultimately show ?thesis
    using h1 h2 r unfolding C_def A_def by blast
qed

text \<open>
  C2. The entries of a mapping returned by \<open>find_duplicates\<close> are in non-decreasing order
  of count, and the tokens of the entries that share a count come in the order in which
  the first document's mapping iterates over them.
\<close>

theorem find_duplicates_order:
  assumes built: "init cd ig mn mx = Inr a" and res: "find_duplicates a = Some r"
  shows "sorted (map snd r)
         \<and> (\<forall>c. subseq (keys (filter (\<lambda>e. snd e = c) r)) (keys (documents a ! 0)))"
proof -
  from res have ne: "documents a \<noteq> []"
    by (auto simp: find_duplicates_def Let_def)
  then have "documents a ! 0 \<in> set (documents a)" by simp
  then have dist: "distinct (keys (documents a ! 0))"
    by (rule init_distinct [OF built])
  let ?d0 = "documents a ! 0"
  show ?thesis
  proof (cases "length (documents a) = 1")
    case True
    with ne have docs: "documents a = [?d0]"
      by (cases "documents a") auto
    let ?P = "\<lambda>x. mincount a \<le> snd x \<and> snd x \<le> maxcount a"
    from find_duplicates_single [OF docs dist] res
    have r: "r = filter ?P (sort_key snd ?d0)" by simp
    have "sorted (map snd (sort_key snd ?d0))" by (rule sorted_sort_key)
    then have srt: "sorted (map snd r)" unfolding r by (rule sorted_filter)
    have "subseq (keys (filter (\<lambda>e. snd e = c) r)) (keys ?d0)" for c
    proof -
      have "filter (\<lambda>e. snd e = c) (filter ?P xs) = filter ?P (filter (\<lambda>e. snd e = c) xs)"
        for xs :: worddict
        by (simp add: conj_commute)
      then have "filter (\<lambda>e. snd e = c) r = filter ?P (filter (\<lambda>e. snd e = c) ?d0)"
        by (simp only: r sort_key_stable)
      moreover have "subseq (filter ?P (filter (\<lambda>e. snd e = c) ?d0)) (filter (\<lambda>e. snd e = c) ?d0)"
        by (rule subseq_filter_left)
      moreover have "subseq (filter (\<lambda>e. snd e = c) ?d0) ?d0"
        by (rule subseq_filter_left)
      ultimately have "subseq (filter (\<lambda>e. snd e = c) r) ?d0"
        by (simp only: subseq_order.order_trans)
      then show ?thesis unfolding keys_def by (rule subseq_map)
    qed
    with srt show ?thesis by blast
  next
    case False
    moreover from ne have "length (documents a) \<noteq> 0" by simp
    ultimately have two: "2 \<le> length (documents a)" by linarith
    let ?Q = "\<lambda>(word, firstcount :: int).
                (\<forall>d \<in> set (documents a). dict_get d word \<noteq> None)
                \<and> mincount a \<le> total_count (documents a) word
                \<and> total_count (documents a) word \<le> maxcount a"
    let ?g = "\<lambda>(word, firstcount :: int). (word, total_count (documents a) word)"
    let ?R = "map ?g (filter ?Q ?d0)"
    from find_duplicates_many [OF two dist] res
    have r: "r = sort_key snd ?R" by simp
    have srt: "sorted (map snd r)" unfolding r by (rule sorted_sort_key)
    have kR: "keys ?R = keys (filter ?Q ?d0)"
      by (simp add: keys_def comp_def case_prod_unfold)
    have "subseq (keys (filter (\<lambda>e. snd e = c) r)) (keys ?d0)" for c
    proof -
      have "filter (\<lambda>e. snd e = c) r = filter (\<lambda>e. snd e = c) ?R"
        unfolding r by (rule sort_key_stable)
      moreover have "subseq (keys (filter (\<lambda>e. snd e = c) ?R)) (keys ?R)"
        unfolding keys_def by (rule subseq_map) (rule subseq_filter_left)
      moreover have "subseq (keys (filter ?Q ?d0)) (keys ?d0)"
        unfolding keys_def by (rule subseq_map) (rule subseq_filter_left)
      ultimately show ?thesis
        by (simp only: kR subseq_order.order_trans)
    qed
    with srt show ?thesis by blast
  qed
qed

text \<open>
  An instance: \<open>cat\<close> and \<open>dog\<close> both total 3 and keep the order of the first document.
\<close>

theorem find_duplicates_order_witness:
  "init (StrList [''cat dog dog'', ''dog cat cat'']) NoneArg None None
     = Inr \<lparr>mincount = 1, maxcount = 256,
            documents = [[(''cat'', 1), (''dog'', 2)], [(''dog'', 1), (''cat'', 2)]],
            ignorewords = {}\<rparr>
   \<and> find_duplicates \<lparr>mincount = 1, maxcount = 256,
            documents = [[(''cat'', 1), (''dog'', 2)], [(''dog'', 1), (''cat'', 2)]],
            ignorewords = {}\<rparr> = Some [(''cat'', 3), (''dog'', 3)]
   \<and> sorted (map snd [(''cat'', 3 :: int), (''dog'', 3)])
   \<and> subseq (keys (filter (\<lambda>e. snd e = 3) [(''cat'', 3), (''dog'', 3)]))
        (keys [(''cat'', 1), (''dog'', 2)])"
proof -
  define A where "A = \<lparr>mincount = 1, maxcount = 256,
            documents = [[(''cat'', 1 :: int), (''dog'', 2)], [(''dog'', 1), (''cat'', 2)]],
            ignorewords = {} :: string set\<rparr>"
  have h1: "init (StrList [''cat dog dog'', ''dog cat cat'']) NoneArg None None = Inr A"
    unfolding A_def by code_simp
  have h2: "find_duplicates A = Some [(''cat'', 3), (''dog'', 3)]"
    unfolding A_def by code_simp
  from find_duplicates_order [OF h1 h2]
  have "sorted (map snd [(''cat'', 3 :: int), (''dog'', 3)])"
    and "subseq (keys (filter (\<lambda>e. snd e = 3) [(''cat'', 3), (''dog'', 3)]))
           (keys (documents A ! 0))"
    by blast+
  then show ?thesis
    using h1 h2 unfolding A_def by simp
qed

text \<open>
  C3. For an analyser built from exactly one document, \<open>find_duplicates\<close> returns that
  document's mapping restricted to the entries whose count lies between \<open>mincount\<close> and
  \<open>maxcount\<close>, both included, in ascending order of count.
\<close>

theorem find_duplicates_single_document:
  assumes built: "init cd ig mn mx = Inr a" and one: "length (texts_of cd) = 1"
  shows "\<exists>d r. documents a = [d] \<and> find_duplicates a = Some r
           \<and> r = sort_key snd (filter (\<lambda>x. mincount a \<le> snd x \<and> snd x \<le> maxcount a) d)
           \<and> sorted (map snd r) \<and> distinct (keys r)
           \<and> (\<forall>w c. dict_get r w = Some c \<longleftrightarrow>
                  dict_get d w = Some c \<and> mincount a \<le> c \<and> c \<le> maxcount a)"
proof -
  from one init_length [OF built] have "length (documents a) = 1" by simp
  then obtain d where docs: "documents a = [d]"
    by (cases "documents a") auto
  then have "d \<in> set (documents a)" by simp
  then have dist: "distinct (keys d)" by (rule init_distinct [OF built])
  let ?P = "\<lambda>x. mincount a \<le> snd x \<and> snd x \<le> maxcount a"
  let ?r = "sort_key snd (filter ?P d)"
  have "find_duplicates a = Some (filter ?P (sort_key snd d))"
    by (rule find_duplicates_single [OF docs dist])
  then have res: "find_duplicates a = Some ?r"
    by (simp only: filter_sort)
  have srt: "sorted (map snd ?r)" by (rule sorted_sort_key)
  from dist have dr: "distinct (keys ?r)"
    by (simp add: keys_sort_key keys_filter)
  have "dict_get ?r w = Some c \<longleftrightarrow> dict_get d w = Some c \<and> mincount a \<le> c \<and> c \<le> maxcount a"
    for w c
    using dict_get_Some_iff [OF dr, of w c] dict_get_Some_iff [OF dist, of w c] by auto
  with docs res srt dr show ?thesis by blast
qed

text \<open>
  An instance: with the range 2 to 3, \<open>emu\<close> (count 1) is left out.
\<close>

theorem find_duplicates_single_document_witness:
  "init (Str ''dog dog cat cat emu bee bee bee'') NoneArg (Some 2) (Some 3)
     = Inr \<lparr>mincount = 2, maxcount = 3,
            documents = [[(''dog'', 2), (''cat'', 2), (''emu'', 1), (''bee'', 3)]],
            ignorewords = {}\<rparr>
   \<and> length (texts_of (Str ''dog dog cat cat emu bee bee bee'')) = 1
   \<and> find_duplicates \<lparr>mincount = 2, maxcount = 3,
            documents = [[(''dog'', 2), (''cat'', 2), (''emu'', 1), (''bee'', 3)]],
            ignorewords = {}\<rparr>
       = Some [(''dog'', 2), (''cat'', 2), (''bee'', 3)]"
proof -
  define A where "A = \<lparr>mincount = 2, maxcount = 3,
            documents = [[(''dog'', 2), (''cat'', 2), (''emu'', 1), (''bee'', 3 :: int)]],
            ignorewords = {} :: string set\<rparr>"
  have h1: "init (Str ''dog dog cat cat emu bee bee bee'') NoneArg (Some 2) (Some 3) = Inr A"
    unfolding A_def by code_simp
  have h2: "length (texts_of (Str ''dog dog cat cat emu bee bee bee'')) = 1"
    by (simp add: texts_of_def)
  from find_duplicates_single_document [OF h1 h2]
  obtain d r where d: "documents A = [d]" and r: "find_duplicates A = Some r"
    and srt: "r = sort_key snd (filter (\<lambda>x. mincount A \<le> snd x \<and> snd x \<le> maxcount A) d)"
    by blast
  from d have "d = [(''dog'', 2), (''cat'', 2), (''emu'', 1), (''bee'', 3)]"
    by (simp add: A_def)
  with srt have "r = sort_key snd (filter (\<lambda>x. (2 :: int) \<le> snd x \<and> snd x \<le> 3)
                       [(''dog'', 2), (''cat'', 2), (''emu'', 1), (''bee'', 3)])"
    by (simp add: A_def)
  also have "\<dots> = [(''dog'', 2), (''cat'', 2), (''bee'', 3)]"
    by code_simp
  finally have "find_duplicates A = Some [(''dog'', 2), (''cat'', 2), (''bee'', 3)]"
    using r by simp
  with h1 h2 show ?thesis unfolding A_def by simp
qed

text \<open>
  C4. \<open>find_duplicates\<close> returns \<open>None\<close> exactly when the analyser holds no document; an
  analyser built from one or more texts gets a mapping, which may be empty, as for the
  two documents \<open>apple\<close> and \<open>banana\<close>.
\<close>

theorem find_duplicates_no_result:
  "(find_duplicates self = None \<longleftrightarrow> documents self = [])
   \<and> (init cd ig mn mx = Inr a \<longrightarrow> (find_duplicates a = None \<longleftrightarrow> texts_of cd = []))
   \<and> analyse (StrList [''apple'', ''banana'']) NoneArg None None = Inr (Some [])"
proof -
  have 1: "find_duplicates s = None \<longleftrightarrow> documents s = []" for s
    by (simp add: find_duplicates_def Let_def)
  have 2: "find_duplicates a = None \<longleftrightarrow> texts_of cd = []" if "init cd ig mn mx = Inr a"
    using init_length [OF that] 1 [of a] by auto
  have 3: "analyse (StrList [''apple'', ''banana'']) NoneArg None None = Inr (Some [])"
    by code_simp
  from 1 2 3 show ?thesis by blast
qed

text \<open>
  An instance of each side: no document, and one document.
\<close>

theorem find_duplicates_no_result_witness:
  "init (StrList []) NoneArg None None
     = Inr \<lparr>mincount = 1, maxcount = 256, documents = [], ignorewords = {}\<rparr>
   \<and> find_duplicates \<lparr>mincount = 1, maxcount = 256, documents = [], ignorewords = {}\<rparr> = None
   \<and> init (Str ''apple'') NoneArg None None
     = Inr \<lparr>mincount = 1, maxcount = 256, documents = [[(''apple'', 1)]], ignorewords = {}\<rparr>
   \<and> find_duplicates \<lparr>mincount = 1, maxcount = 256, documents = [[(''apple'', 1)]],
                        ignorewords = {}\<rparr> \<noteq> None"
proof -
  define A where "A = \<lparr>mincount = 1, maxcount = 256, documents = [] :: worddict list,
                       ignorewords = {} :: string set\<rparr>"
  define B where "B = \<lparr>mincount = 1, maxcount = 256, documents = [[(''apple'', 1 :: int)]],
                       ignorewords = {} :: string set\<rparr>"
  have h1: "init (StrList []) NoneArg None None = Inr A"
    unfolding A_def by code_simp
  have h2: "init (Str ''apple'') NoneArg None None = Inr B"
    unfolding B_def by code_simp
  from find_duplicates_no_result [of A "StrList []" NoneArg None None A] h1
  have "find_duplicates A = None" by (simp add: texts_of_def)
  moreover from find_duplicates_no_result [of B "Str ''apple''" NoneArg None None B] h2
  have "find_duplicates B \<noteq> None" by (simp add: texts_of_def B_def)
  ultimately show ?thesis using h1 h2 unfolding A_def B_def by simp
qed

text \<open>
  C5. Whatever the ignore text and the documents, the constructor succeeds, the set of
  ignored words is the set of the tokens of the ignore text, and no ignored word is a key
  of any document's mapping. The same holds for every single call of
  \<open>count_occurrences\<close>, in any state of the analyser.
\<close>

theorem ignored_words_never_counted:
  "(\<exists>a. init cd (Str ignoretext) mn mx = Inr a
        \<and> ignorewords a = set (wordfinder ignoretext)
        \<and> length (documents a) = length (texts_of cd)
        \<and> (\<forall>d \<in> set (documents a). \<forall>w \<in> ignorewords a. w \<notin> set (keys d)))
   \<and> (\<forall>w \<in> ignorewords self.
         w \<notin> set (keys (last (documents (count_occurrences self textdata)))))"
proof -
  have cnt: "w \<notin> set (keys (fold (count_word ig) ws []))" if "w \<in> ig" for w ig ws
    using that set_keys_fold_count_word [of ig ws "[]"] by (auto simp: keys_def)
  obtain a where a: "init cd (Str ignoretext) mn mx = Inr a"
    using init_succeeds [of cd "Str ignoretext" mn mx] by auto
  have ign: "ignorewords a = set (wordfinder ignoretext)"
    using init_fields(1) [OF a] by simp
  have len: "length (documents a) = length (texts_of cd)"
    by (rule init_length [OF a])
  have "w \<notin> set (keys d)" if "d \<in> set (documents a)" and "w \<in> ignorewords a" for d w
  proof -
    from that(1) obtain t where "d = fold (count_word (ignorewords a)) (wordfinder t) []"
      by (auto simp: init_fields(2) [OF a])
    with cnt [OF that(2)] show ?thesis by simp
  qed
  with a ign len have first: "\<exists>a. init cd (Str ignoretext) mn mx = Inr a
        \<and> ignorewords a = set (wordfinder ignoretext)
        \<and> length (documents a) = length (texts_of cd)
        \<and> (\<forall>d \<in> set (documents a). \<forall>w \<in> ignorewords a. w \<notin> set (keys d))"
    by blast
  have "\<forall>w \<in> ignorewords self.
          w \<notin> set (keys (last (documents (count_occurrences self textdata))))"
    by (simp add: count_occurrences_fields cnt)
  with first show ?thesis by blast
qed

text \<open>
  An instance: \<open>fish\<close> is ignored and not counted.
\<close>

theorem ignored_words_never_counted_witness:
  "init (StrList [''cat dog fish'']) (Str ''fish'') None None
     = Inr \<lparr>mincount = 1, maxcount = 256, documents = [[(''cat'', 1), (''dog'', 1)]],
            ignorewords = {''fish''}\<rparr>
   \<and> ''fish'' \<in> set (wordfinder ''fish'')
   \<and> ''fish'' \<notin> set (keys [(''cat'', 1), (''dog'', 1)])"
proof -
  define A where "A = \<lparr>mincount = 1, maxcount = 256,
                       documents = [[(''cat'', 1 :: int), (''dog'', 1)]],
                       ignorewords = {''fish''}\<rparr>"
  have h1: "init (StrList [''cat dog fish'']) (Str ''fish'') None None = Inr A"
    unfolding A_def by code_simp
  have h2: "''fish'' \<in> set (wordfinder ''fish'')" by code_simp
  from ignored_words_never_counted [of "StrList [''cat dog fish'']" "''fish''" None None A "''''"]
  obtain a where "init (StrList [''cat dog fish'']) (Str ''fish'') None None = Inr a"
    and "ignorewords a = set (wordfinder ''fish'')"
    and "\<forall>d \<in> set (documents a). \<forall>w \<in> ignorewords a. w \<notin> set (keys d)"
    by blast
  with h1 h2 have "''fish'' \<notin> set (keys [(''cat'', 1), (''dog'', 1)])"
    by (auto simp: A_def)
  with h1 h2 show ?thesis unfolding A_def by simp
qed

text \<open>
  C6. The claim is that every list of ignore texts is tokenized and united into the set of
  ignored words. The constructor does not do this: given a list, it raises \<open>NameError\<close>,
  whatever the list holds, the empty list included.
\<close>

theorem list_of_ignore_documents_raises:
  "init cd (StrList texts) mn mx = Inl (NameError ''checkdocuments'')"
  by (simp add: init_def Let_def process_ignore_def)

text \<open>
  C7. The claim is that \<open>load_file\<close>, on a file that exists and cannot be opened, reports
  the error and returns an empty text, so that the program goes on. The function reports
  the error and then raises \<open>UnboundLocalError\<close> from its \<open>finally\<close> clause, and the
  loop of \<open>main\<close> that loads the documents ends with that exception.
\<close>

theorem unreadable_file_raises:
  assumes "isfile sys filename" and "fopen sys filename = Inl detail"
  shows "load_file sys filename
           = ([''Error: Unable to read to '' @ filename, detail], Inl (UnboundLocalError ''f''))
         \<and> load_documents sys (filename # files)
           = ([''Error: Unable to read to '' @ filename, detail], Inl (UnboundLocalError ''f''))"
  using assms by (simp add: load_file_def close_file_def)

text \<open>
  An instance: a file that may not be read, first of two files to load.
\<close>

theorem unreadable_file_raises_witness:
  "isfile \<lparr>isfile = (\<lambda>_. True), fopen = (\<lambda>_. Inl ''[Errno 13] Permission denied'')\<rparr>
     ''secret.txt''
   \<and> fopen \<lparr>isfile = (\<lambda>_. True), fopen = (\<lambda>_. Inl ''[Errno 13] Permission denied'')\<rparr>
       ''secret.txt'' = Inl ''[Errno 13] Permission denied''
   \<and> load_file \<lparr>isfile = (\<lambda>_. True), fopen = (\<lambda>_. Inl ''[Errno 13] Permission denied'')\<rparr>
       ''secret.txt''
     = ([''Error: Unable to read to secret.txt'', ''[Errno 13] Permission denied''],
        Inl (UnboundLocalError ''f''))
   \<and> load_documents
       \<lparr>isfile = (\<lambda>_. True), fopen = (\<lambda>_. Inl ''[Errno 13] Permission denied'')\<rparr>
       [''secret.txt'', ''other.txt'']
     = ([''Error: Unable to read to secret.txt'', ''[Errno 13] Permission denied''],
        Inl (UnboundLocalError ''f''))"
  using unreadable_file_raises
    [of "\<lparr>isfile = (\<lambda>_. True), fopen = (\<lambda>_. Inl ''[Errno 13] Permission denied'')\<rparr>"
        "''secret.txt''" "''[Errno 13] Permission denied''" "[''other.txt'']"]
  by simp

text \<open>
  C8, as stated, fails: the single letter \<open>a\<close> is not a token, since a token has at
  least three characters, so the two documents \<open>a a a\<close> and \<open>a a\<close> have empty mappings
  and the result does not hold \<open>a\<close> with the count 5.
\<close>

theorem single_letter_not_counted:
  "wordfinder ''a a a'' = [] \<and> wordfinder ''a a'' = []
   \<and> analyse (StrList [''a a a'', ''a a'']) NoneArg (Some 4) (Some 256) = Inr (Some [])"
  by code_simp

text \<open>
  C8, amended: for the documents \<open>a a a\<close> and \<open>a a\<close> and \<open>mincount\<close> 4 the result is the
  empty mapping, for \<open>maxcount\<close> 256 as for 4. For the three-letter token, in the documents
  \<open>aaa aaa aaa\<close> and \<open>aaa aaa\<close>, the result holds \<open>aaa\<close> with the total 5 when
  \<open>maxcount\<close> is 256, and is empty when \<open>maxcount\<close> is 4.
\<close>

theorem three_letter_token_counted:
  "analyse (StrList [''a a a'', ''a a'']) NoneArg (Some 4) (Some 256) = Inr (Some [])
   \<and> analyse (StrList [''a a a'', ''a a'']) NoneArg (Some 4) (Some 4) = Inr (Some [])
   \<and> analyse (StrList [''aaa aaa aaa'', ''aaa aaa'']) NoneArg (Some 4) (Some 256)
       = Inr (Some [(''aaa'', 5)])
   \<and> analyse (StrList [''aaa aaa aaa'', ''aaa aaa'']) NoneArg (Some 4) (Some 4)
       = Inr (Some [])"
  by code_simp

text \<open>
  C9, as stated, fails: a token longer than 32 characters is printed in full, so the
  column is not 32 characters wide for it. Here the token has 33 characters.
\<close>

theorem long_token_not_truncated:
  "init (Str ''abcdefghijklmnopqrstuvwxyzabcdefg'') NoneArg None None
     = Inr \<lparr>mincount = 1, maxcount = 256,
            documents = [[(''abcdefghijklmnopqrstuvwxyzabcdefg'', 1)]], ignorewords = {}\<rparr>
   \<and> display_results \<lparr>mincount = 1, maxcount = 256,
            documents = [[(''abcdefghijklmnopqrstuvwxyzabcdefg'', 1)]], ignorewords = {}\<rparr>
       = [''abcdefghijklmnopqrstuvwxyzabcdefg 1'']
   \<and> length ''abcdefghijklmnopqrstuvwxyzabcdefg'' = 33
   \<and> display_results \<lparr>mincount = 1, maxcount = 256,
            documents = [[(''abcdefghijklmnopqrstuvwxyzabcdefg'', 1)]], ignorewords = {}\<rparr>
       \<noteq> [fixed_column 32 ''abcdefghijklmnopqrstuvwxyzabcdefg'' @ '' 1'']"
  by code_simp

text \<open>
  C9, amended: when \<open>find_duplicates\<close> returns \<open>None\<close>, \<open>display_results\<close> prints the
  single line \<open>No results found\<close>. Otherwise it prints one line for each entry, in the
  order of the mapping: the token, followed by spaces up to a width of 32 characters when
  it is shorter, then one space, then the count. The token is never cut: the field is as
  wide as the longer of 32 and the token's length, and for a token of at most 32
  characters it is the column of exactly 32 characters.
\<close>

theorem display_results_lines:
  "(find_duplicates self = None \<longrightarrow> display_results self = [''No results found''])
   \<and> (\<forall>r. find_duplicates self = Some r \<longrightarrow>
          length (display_results self) = length r
          \<and> (\<forall>i < length r.
                display_results self ! i
                  = fst (r ! i) @ replicate (32 - length (fst (r ! i))) CHR '' ''
                    @ '' '' @ str_int (snd (r ! i))
                \<and> length (ljust 32 (fst (r ! i))) = max 32 (length (fst (r ! i)))
                \<and> (length (fst (r ! i)) \<le> 32 \<longrightarrow>
                     display_results self ! i
                       = fixed_column 32 (fst (r ! i)) @ '' '' @ str_int (snd (r ! i)))))"
proof -
  have none: "display_results self = [''No results found'']" if "find_duplicates self = None"
    using that by (simp add: display_results_def)
  have some: "length (display_results self) = length r
          \<and> (\<forall>i < length r.
                display_results self ! i
                  = fst (r ! i) @ replicate (32 - length (fst (r ! i))) CHR '' ''
                    @ '' '' @ str_int (snd (r ! i))
                \<and> length (ljust 32 (fst (r ! i))) = max 32 (length (fst (r ! i)))
                \<and> (length (fst (r ! i)) \<le> 32 \<longrightarrow>
                     display_results self ! i
                       = fixed_column 32 (fst (r ! i)) @ '' '' @ str_int (snd (r ! i))))"
    if r: "find_duplicates self = Some r" for r
  proof -
    from r have d: "display_results self = map (\<lambda>(key, val). format_line key val) r"
      by (simp add: display_results_def)
    have line: "display_results self ! i = ljust 32 (fst (r ! i)) @ '' '' @ str_int (snd (r ! i))"
      if "i < length r" for i
      using that by (simp add: d format_line_def case_prod_beta)
    show ?thesis
    proof (intro conjI allI impI)
      show "length (display_results self) = length r" by (simp add: d)
    next
      fix i assume "i < length r"
      then show "display_results self ! i
                  = fst (r ! i) @ replicate (32 - length (fst (r ! i))) CHR '' ''
                    @ '' '' @ str_int (snd (r ! i))"
        by (simp add: line ljust_def)
    next
      fix i assume "i < length r"
      show "length (ljust 32 (fst (r ! i))) = max 32 (length (fst (r ! i)))"
        by (rule length_ljust)
    next
      fix i assume "i < length r" and "length (fst (r ! i)) \<le> 32"
      then show "display_results self ! i
                   = fixed_column 32 (fst (r ! i)) @ '' '' @ str_int (snd (r ! i))"
        by (simp add: line ljust_fixed_column)
    qed
  qed
  from none some show ?thesis by blast
qed

text \<open>
  An instance of each case.
\<close>

theorem display_results_lines_witness:
  "find_duplicates \<lparr>mincount = 1, maxcount = 256, documents = [], ignorewords = {}\<rparr> = None
   \<and> display_results \<lparr>mincount = 1, maxcount = 256, documents = [], ignorewords = {}\<rparr>
       = [''No results found'']
   \<and> find_duplicates \<lparr>mincount = 1, maxcount = 256, documents = [[(''cat'', 12)]],
                        ignorewords = {}\<rparr> = Some [(''cat'', 12)]
   \<and> display_results \<lparr>mincount = 1, maxcount = 256, documents = [[(''cat'', 12)]],
                        ignorewords = {}\<rparr> ! 0
       = ''cat                              12''"
proof -
  define A where "A = \<lparr>mincount = 1, maxcount = 256, documents = [] :: worddict list,
                       ignorewords = {} :: string set\<rparr>"
  define B where "B = \<lparr>mincount = 1, maxcount = 256, documents = [[(''cat'', 12 :: int)]],
                       ignorewords = {} :: string set\<rparr>"
  have h1: "find_duplicates A = None" unfolding A_def by code_simp
  have h2: "find_duplicates B = Some [(''cat'', 12)]" unfolding B_def by code_simp
  from display_results_lines [of A] h1
  have 1: "display_results A = [''No results found'']" by blast
  from display_results_lines [of B] h2
  have "\<forall>i < length [(''cat'', 12 :: int)].
          display_results B ! i
            = fst ([(''cat'', 12 :: int)] ! i)
              @ replicate (32 - length (fst ([(''cat'', 12 :: int)] ! i))) CHR '' ''
              @ '' '' @ str_int (snd ([(''cat'', 12 :: int)] ! i))"
    by blast
  moreover have "''cat'' @ replicate (32 - length ''cat'') CHR '' '' @ '' '' @ str_int 12
                   = ''cat                              12''"
    by code_simp
  ultimately have 2: "display_results B ! 0 = ''cat                              12''"
    by simp
  from h1 h2 1 2 show ?thesis unfolding A_def B_def by simp
qed

text \<open>
  C10. An analyser whose \<open>mincount\<close> is greater than its \<open>maxcount\<close> and that holds at
  least one document returns the empty mapping.
\<close>

theorem empty_range:
  assumes "maxcount self < mincount self" and "documents self \<noteq> []"
  shows "find_duplicates self = Some []"
proof -
  have "filter (\<lambda>x. mincount self \<le> snd x \<and> snd x \<le> maxcount self) xs = []" for xs :: worddict
    using assms(1) by (induction xs) auto
  with assms show ?thesis
    by (simp add: find_duplicates_def Let_def fold_review_word_empty dict_of_def
          sorted_by_count_def)
qed

text \<open>
  An instance: the range from 5 to 2.
\<close>

theorem empty_range_witness:
  "maxcount \<lparr>mincount = 5, maxcount = 2, documents = [[(''cat'', 3)]], ignorewords = {}\<rparr>
     < mincount \<lparr>mincount = 5, maxcount = 2, documents = [[(''cat'', 3)]], ignorewords = {}\<rparr>
   \<and> documents \<lparr>mincount = 5, maxcount = 2, documents = [[(''cat'', 3)]], ignorewords = {}\<rparr>
       \<noteq> []
   \<and> find_duplicates \<lparr>mincount = 5, maxcount = 2, documents = [[(''cat'', 3)]],
                        ignorewords = {}\<rparr> = Some []"
  using empty_range
    [of "\<lparr>mincount = 5, maxcount = 2, documents = [[(''cat'', 3)]], ignorewords = {}\<rparr>"]
  by simp

end
